theory Spec2Isabelle
  imports Main
begin

section \<open>Go values: slices and maps of slices\<close>

text \<open>
  A Go slice is either \<^verbatim>\<open>nil\<close> or a (possibly empty) sequence of elements; the two
  are different values for the test \<^verbatim>\<open>proposed == nil\<close> of \<^verbatim>\<open>ProposedAllocs\<close>, so the
  model keeps them apart.
\<close>

datatype 'a slice = NilSlice | Slice "'a list"

fun elems :: "'a slice \<Rightarrow> 'a list" where
  "elems NilSlice = []"
| "elems (Slice xs) = xs"

text \<open>\<^verbatim>\<open>len(s)\<close>: the length of a nil slice is 0.\<close>

definition len :: "'a slice \<Rightarrow> nat" where
  "len s = length (elems s)"

text \<open>
  \<^verbatim>\<open>append(s, t...)\<close>: with nothing to add the slice \<^verbatim>\<open>s\<close> itself is returned (a nil
  slice stays nil); otherwise the result holds the elements of \<^verbatim>\<open>s\<close> followed by
  those of \<^verbatim>\<open>t\<close>.
\<close>

definition append_slice :: "'a slice \<Rightarrow> 'a slice \<Rightarrow> 'a slice" where
  "append_slice s t = (if len t = 0 then s else Slice (elems s @ elems t))"

text \<open>
  \<^verbatim>\<open>m[k]\<close> on a \<^verbatim>\<open>map[string][]T\<close>: a missing key (and any key of a nil map) reads as
  the zero value of the element type, the nil slice.
\<close>

definition index_map :: "('k \<rightharpoonup> 'a slice) \<Rightarrow> 'k \<Rightarrow> 'a slice" where
  "index_map m k = (case m k of None \<Rightarrow> NilSlice | Some s \<Rightarrow> s)"

section \<open>The structures of package \<^verbatim>\<open>structs\<close>\<close>

text \<open>
  Modelled from the spec: the declaration of \<^verbatim>\<open>structs.Allocation\<close> is not among the
  sources. The data model gives an allocation an identity, the node it is bound to, a
  job/task reference and a lifecycle status, one of pending, running, complete, failed
  and lost. The slices of the program hold pointers to allocations; the model holds the
  allocation each one points to.
\<close>

datatype AllocStatus = Pending | Running | Complete | Failed | Lost

record Allocation =
  ID :: string
  NodeID :: string
  TaskName :: string
  Status :: AllocStatus

text \<open>
  Modelled from the spec: \<^verbatim>\<open>Allocation.TerminalStatus\<close> is not among the sources. The
  terminal statuses are complete, failed and lost.
\<close>

fun terminal :: "AllocStatus \<Rightarrow> bool" where
  "terminal Pending = False"
| "terminal Running = False"
| "terminal Complete = True"
| "terminal Failed = True"
| "terminal Lost = True"

definition TerminalStatus :: "Allocation \<Rightarrow> bool" where
  "TerminalStatus a = terminal (Status a)"

text \<open>
  Modelled from the spec: \<^verbatim>\<open>structs.FilterTerminalAllocs\<close> is not among the sources.
  It filters out the allocations in a terminal status. A nil slice has nothing to
  filter and stays nil.
\<close>

definition FilterTerminalAllocs :: "Allocation slice \<Rightarrow> Allocation slice" where
  "FilterTerminalAllocs allocs =
     (case allocs of
        NilSlice \<Rightarrow> NilSlice
      | Slice xs \<Rightarrow> Slice (filter (\<lambda>a. \<not> TerminalStatus a) xs))"

text \<open>
  Modelled from the spec: \<^verbatim>\<open>structs.RemoveAllocs\<close> is not among the sources. It
  removes from \<^verbatim>\<open>alloc\<close> the allocation instances listed in \<^verbatim>\<open>remove\<close>, found by
  their identity (the \<^verbatim>\<open>ID\<close>), not by their task name.
\<close>

definition RemoveAllocs :: "Allocation slice \<Rightarrow> Allocation slice \<Rightarrow> Allocation slice" where
  "RemoveAllocs alloc remove =
     (case alloc of
        NilSlice \<Rightarrow> NilSlice
      | Slice xs \<Rightarrow> Slice (filter (\<lambda>a. ID a \<notin> set (map ID (elems remove))) xs))"

text \<open>
  The plan: \<^verbatim>\<open>ProposedAllocs\<close> reads its two maps \<^verbatim>\<open>NodeUpdate\<close> (the evictions of a
  node) and \<^verbatim>\<open>NodeAllocation\<close> (the placements of a node).
\<close>

record Plan =
  NodeUpdate :: "string \<rightharpoonup> Allocation slice"
  NodeAllocation :: "string \<rightharpoonup> Allocation slice"

text \<open>
  Modelled from the spec: the operations that record a decision in the plan are not
  among the sources. The plan is an append-only accumulator: \<^verbatim>\<open>recordEviction\<close> adds
  the allocation to the evictions of the node and \<^verbatim>\<open>recordPlacement\<close> appends it
  to the placements of the node. Both append, so an eviction recorded twice is twice
  in the sequence of the node.
\<close>

definition recordEviction :: "string \<Rightarrow> Allocation \<Rightarrow> Plan \<Rightarrow> Plan" where
  "recordEviction nodeID a p =
     p\<lparr>NodeUpdate := (NodeUpdate p)(nodeID \<mapsto> append_slice (index_map (NodeUpdate p) nodeID) (Slice [a]))\<rparr>"

definition recordPlacement :: "string \<Rightarrow> Allocation \<Rightarrow> Plan \<Rightarrow> Plan" where
  "recordPlacement nodeID a p =
     p\<lparr>NodeAllocation := (NodeAllocation p)(nodeID \<mapsto> append_slice (index_map (NodeAllocation p) nodeID) (Slice [a]))\<rparr>"

text \<open>
  Modelled from the spec: the declaration of \<^verbatim>\<open>structs.AllocMetric\<close> is not among the
  sources. The accumulator counts the nodes considered, the nodes rejected under each
  reason tag, and keeps the score breakdown of the winning node.
  \<^verbatim>\<open>new(structs.AllocMetric)\<close> is its zero value.
\<close>

record AllocMetric =
  NodesEvaluated :: nat
  NodesRejected :: "string \<rightharpoonup> nat"
  Scores :: "string \<rightharpoonup> int"

definition new_AllocMetric :: AllocMetric where
  "new_AllocMetric = \<lparr>NodesEvaluated = 0, NodesRejected = Map.empty, Scores = Map.empty\<rparr>"

section \<open>The state view\<close>

text \<open>
  The error of a failed query, with its message. The interface \<^verbatim>\<open>State\<close> is used
  through its one method \<^verbatim>\<open>AllocsByNode\<close>, which returns the allocations of a node or
  an error.
\<close>

datatype error = StateUnavailable string

record State =
  AllocsByNode :: "string \<Rightarrow> error + Allocation slice"

section \<open>The evaluation cache and the evaluation context\<close>

text \<open>
  A Go map is a reference: the two cache fields hold the address of a map object in
  the store, or nil. The store keeps the map objects of each type in a list, and the
  address of an object is its position; \<^verbatim>\<open>make\<close> adds an object at the end, so a new
  address is different from every address in use. The compiled expressions and the
  parsed constraints belong to other libraries and are type parameters of the store.
\<close>

type_synonym addr = nat

record ('r, 'c) Store =
  reMaps :: "(string \<rightharpoonup> 'r) list"
  conMaps :: "(string \<rightharpoonup> 'c) list"

record EvalCache =
  reCache :: "addr option"
  constraintCache :: "addr option"

text \<open>
  \<^verbatim>\<open>EvalContext\<close> embeds \<^verbatim>\<open>EvalCache\<close>, so it extends the record. The fields \<^verbatim>\<open>plan\<close>
  and \<^verbatim>\<open>metrics\<close> are pointers handed over by \<^verbatim>\<open>NewEvalContext\<close>; the model holds
  the structures they point to. The logger is never used by the operations below and
  is kept as the address it is.
\<close>

record EvalContext = EvalCache +
  state :: State
  plan :: Plan
  logger :: addr
  metrics :: AllocMetric

definition NewEvalContext :: "State \<Rightarrow> Plan \<Rightarrow> addr \<Rightarrow> EvalContext" where
  "NewEvalContext s p log =
     \<lparr>reCache = None, constraintCache = None,
      state = s, plan = p, logger = log, metrics = new_AllocMetric\<rparr>"

text \<open>
  The methods have a pointer receiver: each one returns the context as it leaves it,
  next to its result. The two cache accessors also allocate, so they take and return
  the store.
\<close>

definition RegexpCache ::
  "'a EvalCache_scheme \<Rightarrow> ('r, 'c) Store \<Rightarrow> addr option \<times> 'a EvalCache_scheme \<times> ('r, 'c) Store" where
  "RegexpCache e h =
     (let (e1, h1) =
            (if reCache e = None
             then (e\<lparr>reCache := Some (length (reMaps h))\<rparr>, h\<lparr>reMaps := reMaps h @ [Map.empty]\<rparr>)
             else (e, h))
      in (reCache e1, e1, h1))"

definition ConstraintCache ::
  "'a EvalCache_scheme \<Rightarrow> ('r, 'c) Store \<Rightarrow> addr option \<times> 'a EvalCache_scheme \<times> ('r, 'c) Store" where
  "ConstraintCache e h =
     (let (e1, h1) =
            (if constraintCache e = None
             then (e\<lparr>constraintCache := Some (length (conMaps h))\<rparr>, h\<lparr>conMaps := conMaps h @ [Map.empty]\<rparr>)
             else (e, h))
      in (constraintCache e1, e1, h1))"

definition Reset :: "EvalContext \<Rightarrow> EvalContext" where
  "Reset e = e\<lparr>metrics := new_AllocMetric\<rparr>"

definition ProposedAllocs :: "EvalContext \<Rightarrow> string \<Rightarrow> (error + Allocation slice) \<times> EvalContext" where
  "ProposedAllocs e nodeID =
     (case AllocsByNode (state e) nodeID of
        Inl err \<Rightarrow> (Inl err, e)
      | Inr existingAlloc0 \<Rightarrow>
          (let existingAlloc = FilterTerminalAllocs existingAlloc0;
               update = index_map (NodeUpdate (plan e)) nodeID;
               proposed1 = (if len update > 0 then RemoveAllocs existingAlloc update else existingAlloc);
               proposed2 = append_slice proposed1 (index_map (NodeAllocation (plan e)) nodeID);
               proposed3 = (if proposed2 = NilSlice then Slice [] else proposed2)
           in (Inr proposed3, e)))"


text \<open>\<^verbatim>\<open>SetState\<close> replaces the state view of the context.\<close>

definition SetState :: "EvalContext \<Rightarrow> State \<Rightarrow> EvalContext" where
  "SetState e s = e\<lparr>state := s\<rparr>"

section \<open>Client code: the entries of the plan and the cache maps\<close>

text \<open>The evictions and the placements that the plan of the context holds for a node.\<close>

definition planned_evictions :: "EvalContext \<Rightarrow> string \<Rightarrow> Allocation list" where
  "planned_evictions e nodeID = elems (index_map (NodeUpdate (plan e)) nodeID)"

definition planned_placements :: "EvalContext \<Rightarrow> string \<Rightarrow> Allocation list" where
  "planned_placements e nodeID = elems (index_map (NodeAllocation (plan e)) nodeID)"

text \<open>
  \<^verbatim>\<open>m[k] = v\<close> and \<^verbatim>\<open>m[k]\<close> through a map reference \<^verbatim>\<open>m\<close> returned by one of the cache
  accessors. Reading a key that is missing, or any key of a nil map, gives no entry.
  Writing is only modelled for a reference to a map object of the store (writing to a
  nil map panics in Go, and the accessors never return nil).
\<close>

definition re_put :: "addr option \<Rightarrow> string \<Rightarrow> 'r \<Rightarrow> ('r, 'c) Store \<Rightarrow> ('r, 'c) Store" where
  "re_put m k v h =
     (case m of
        None \<Rightarrow> h
      | Some a \<Rightarrow> if a < length (reMaps h) then h\<lparr>reMaps := (reMaps h)[a := (reMaps h ! a)(k \<mapsto> v)]\<rparr> else h)"

definition re_get :: "addr option \<Rightarrow> string \<Rightarrow> ('r, 'c) Store \<Rightarrow> 'r option" where
  "re_get m k h =
     (case m of
        None \<Rightarrow> None
      | Some a \<Rightarrow> if a < length (reMaps h) then (reMaps h ! a) k else None)"

definition con_put :: "addr option \<Rightarrow> string \<Rightarrow> 'c \<Rightarrow> ('r, 'c) Store \<Rightarrow> ('r, 'c) Store" where
  "con_put m k v h =
     (case m of
        None \<Rightarrow> h
      | Some a \<Rightarrow> if a < length (conMaps h) then h\<lparr>conMaps := (conMaps h)[a := (conMaps h ! a)(k \<mapsto> v)]\<rparr> else h)"

definition con_get :: "addr option \<Rightarrow> string \<Rightarrow> ('r, 'c) Store \<Rightarrow> 'c option" where
  "con_get m k h =
     (case m of
        None \<Rightarrow> None
      | Some a \<Rightarrow> if a < length (conMaps h) then (conMaps h ! a) k else None)"

text \<open>
  A context and a store fit together when each cache field is nil or the address of a
  map object of the store: Go has no dangling reference.
\<close>

definition cache_ok :: "'a EvalCache_scheme \<Rightarrow> ('r, 'c) Store \<Rightarrow> bool" where
  "cache_ok e h =
     ((case reCache e of None \<Rightarrow> True | Some a \<Rightarrow> a < length (reMaps h)) \<and>
      (case constraintCache e of None \<Rightarrow> True | Some a \<Rightarrow> a < length (conMaps h)))"

text \<open>
  A call of one of the methods of the context, and a run of such calls on a context
  and a store, each call starting where the one before ended.
\<close>

datatype call =
    Call_RegexpCache
  | Call_ConstraintCache
  | Call_Reset
  | Call_SetState State
  | Call_ProposedAllocs string

fun do_call :: "call \<Rightarrow> EvalContext \<times> ('r, 'c) Store \<Rightarrow> EvalContext \<times> ('r, 'c) Store" where
  "do_call Call_RegexpCache (e, h) = snd (RegexpCache e h)"
| "do_call Call_ConstraintCache (e, h) = snd (ConstraintCache e h)"
| "do_call Call_Reset (e, h) = (Reset e, h)"
| "do_call (Call_SetState s) (e, h) = (SetState e s, h)"
| "do_call (Call_ProposedAllocs nodeID) (e, h) = (snd (ProposedAllocs e nodeID), h)"

fun do_calls :: "call list \<Rightarrow> EvalContext \<times> ('r, 'c) Store \<Rightarrow> EvalContext \<times> ('r, 'c) Store" where
  "do_calls [] w = w"
| "do_calls (c # cs) w = do_calls cs (do_call c w)"

text \<open>
  A step of the evaluation as the context sees it: a call of one of its methods, or a
  write of client code through a map reference (\<^verbatim>\<open>m[k] = v\<close>), and a run of such
  steps. \<open>overwrites_re k\<close> and \<open>overwrites_con k\<close> tell the writes that store
  under the key \<open>k\<close> in a map of compiled expressions or of parsed constraints.
\<close>

datatype ('r, 'c) step =
    Method call
  | Put_Regexp "addr option" string 'r
  | Put_Constraint "addr option" string 'c

fun do_step ::
  "('r, 'c) step \<Rightarrow> EvalContext \<times> ('r, 'c) Store \<Rightarrow> EvalContext \<times> ('r, 'c) Store" where
  "do_step (Method c) w = do_call c w"
| "do_step (Put_Regexp m k v) (e, h) = (e, re_put m k v h)"
| "do_step (Put_Constraint m k v) (e, h) = (e, con_put m k v h)"

fun do_steps ::
  "('r, 'c) step list \<Rightarrow> EvalContext \<times> ('r, 'c) Store \<Rightarrow> EvalContext \<times> ('r, 'c) Store" where
  "do_steps [] w = w"
| "do_steps (s # ss) w = do_steps ss (do_step s w)"

fun overwrites_re :: "string \<Rightarrow> ('r, 'c) step \<Rightarrow> bool" where
  "overwrites_re k (Put_Regexp m k' v) = (k' = k)"
| "overwrites_re k s = False"

fun overwrites_con :: "string \<Rightarrow> ('r, 'c) step \<Rightarrow> bool" where
  "overwrites_con k (Put_Constraint m k' v) = (k' = k)"
| "overwrites_con k s = False"

section \<open>Example values\<close>

definition ex_alloc :: "string \<Rightarrow> string \<Rightarrow> AllocStatus \<Rightarrow> Allocation" where
  "ex_alloc i t s = \<lparr>ID = i, NodeID = ''N'', TaskName = t, Status = s\<rparr>"

definition ex_state :: "Allocation slice \<Rightarrow> State" where
  "ex_state allocs = \<lparr>AllocsByNode = (\<lambda>n. if n = ''N'' then Inr allocs else Inr NilSlice)\<rparr>"

definition ex_state_down :: State where
  "ex_state_down = \<lparr>AllocsByNode = (\<lambda>n. Inl (StateUnavailable ''snapshot read failed''))\<rparr>"

definition ex_plan :: Plan where
  "ex_plan = \<lparr>NodeUpdate = Map.empty, NodeAllocation = Map.empty\<rparr>"

definition ex_store :: "(nat, nat) Store" where
  "ex_store = \<lparr>reMaps = [], conMaps = []\<rparr>"

text \<open>
  A context in the middle of an evaluation: metrics of a placement attempt, and both
  cache maps created and holding one entry each.
\<close>

definition ex_ctx_used :: EvalContext where
  "ex_ctx_used =
     \<lparr>reCache = Some 0, constraintCache = Some 0,
      state = ex_state (Slice [ex_alloc ''a1'' ''web'' Running]), plan = ex_plan, logger = 0,
      metrics = \<lparr>NodesEvaluated = 3, NodesRejected = [''constraint-mismatch'' \<mapsto> 2],
                 Scores = Map.empty\<rparr>\<rparr>"

definition ex_store_used :: "(nat, nat) Store" where
  "ex_store_used = \<lparr>reMaps = [Map.empty(''^web'' \<mapsto> 7)], conMaps = [Map.empty(''>= 1.0'' \<mapsto> 5)]\<rparr>"

text \<open>
  A new context on an empty store, and two runs on it: the first fetches the map of
  compiled expressions, stores an entry through it and goes on with other calls of the
  context; the second does the same with the map of parsed constraints.
\<close>

definition ex_ctx_new :: EvalContext where
  "ex_ctx_new = NewEvalContext (ex_state NilSlice) ex_plan 0"

definition ex_run_re :: "EvalContext \<times> (nat, nat) Store" where
  "ex_run_re =
     do_calls [Call_Reset, Call_ProposedAllocs ''N'', Call_ConstraintCache, Call_RegexpCache]
       (fst (snd (RegexpCache ex_ctx_new ex_store)),
        re_put (fst (RegexpCache ex_ctx_new ex_store)) ''^web'' 7
          (snd (snd (RegexpCache ex_ctx_new ex_store))))"

definition ex_run_con :: "EvalContext \<times> (nat, nat) Store" where
  "ex_run_con =
     do_calls [Call_RegexpCache, Call_SetState ex_state_down, Call_ConstraintCache]
       (fst (snd (ConstraintCache ex_ctx_new ex_store)),
        con_put (fst (ConstraintCache ex_ctx_new ex_store)) ''>= 1.0'' 5
          (snd (snd (ConstraintCache ex_ctx_new ex_store))))"

text \<open>
  Runs of steps on the new context after the first call of an accessor: method calls
  mixed with writes of other entries, then a write under the key looked at, then
  further steps that leave that key alone.
\<close>

definition ex_steps_before :: "(nat, nat) step list" where
  "ex_steps_before =
     [Method Call_Reset, Method Call_RegexpCache, Method Call_ConstraintCache,
      Put_Regexp (Some 0) ''^db'' 9, Put_Constraint (Some 0) ''< 2.0'' 4,
      Method (Call_ProposedAllocs ''N'')]"

definition ex_steps_after :: "(nat, nat) step list" where
  "ex_steps_after =
     [Put_Regexp (Some 0) ''^api'' 8, Method Call_Reset, Put_Constraint (Some 0) ''~> 3'' 6,
      Method Call_ConstraintCache, Method Call_RegexpCache]"

definition ex_mid_re :: "EvalContext \<times> (nat, nat) Store" where
  "ex_mid_re =
     do_steps ex_steps_before
       (fst (snd (RegexpCache ex_ctx_new ex_store)), snd (snd (RegexpCache ex_ctx_new ex_store)))"

definition ex_end_re :: "EvalContext \<times> (nat, nat) Store" where
  "ex_end_re =
     do_steps ex_steps_after
       (fst ex_mid_re, re_put (fst (RegexpCache ex_ctx_new ex_store)) ''^web'' 7 (snd ex_mid_re))"

definition ex_mid_con :: "EvalContext \<times> (nat, nat) Store" where
  "ex_mid_con =
     do_steps ex_steps_before
       (fst (snd (ConstraintCache ex_ctx_new ex_store)),
        snd (snd (ConstraintCache ex_ctx_new ex_store)))"

definition ex_end_con :: "EvalContext \<times> (nat, nat) Store" where
  "ex_end_con =
     do_steps ex_steps_after
       (fst ex_mid_con,
        con_put (fst (ConstraintCache ex_ctx_new ex_store)) ''>= 1.0'' 5 (snd ex_mid_con))"

section \<open>Properties of the projection\<close>

lemma len_NilSlice: "len NilSlice = 0"
  by (simp add: len_def)

lemma elems_FilterTerminalAllocs:
  "elems (FilterTerminalAllocs s) = filter (\<lambda>a. \<not> TerminalStatus a) (elems s)"
  by (cases s) (simp_all add: FilterTerminalAllocs_def)

lemma elems_RemoveAllocs:
  "elems (RemoveAllocs s r) = filter (\<lambda>a. ID a \<notin> set (map ID (elems r))) (elems s)"
  by (cases s) (simp_all add: RemoveAllocs_def)

lemma elems_append_slice: "elems (append_slice s t) = elems s @ elems t"
  by (simp add: append_slice_def len_def)

lemma not_nil_Slice: "(if s = NilSlice then Slice [] else s) = Slice (elems s)"
  by (cases s) simp_all

text \<open>
  The projection in one equation: the allocations of the state view that are not
  terminal and whose identity is not that of a planned eviction, followed by the
  planned placements.
\<close>

lemma ProposedAllocs_elems:
  assumes "AllocsByNode (state e) nodeID = Inr existing"
  shows "fst (ProposedAllocs e nodeID) =
           Inr (Slice (filter (\<lambda>a. ID a \<notin> set (map ID (planned_evictions e nodeID)))
                        (filter (\<lambda>a. \<not> TerminalStatus a) (elems existing))
                       @ planned_placements e nodeID))"
proof (cases "len (index_map (NodeUpdate (plan e)) nodeID) > 0")
  case True
  then show ?thesis
    using assms
    by (simp add: ProposedAllocs_def Let_def not_nil_Slice elems_append_slice
        elems_RemoveAllocs elems_FilterTerminalAllocs planned_evictions_def
        planned_placements_def)
next
  case False
  then have "elems (index_map (NodeUpdate (plan e)) nodeID) = []"
    by (simp add: len_def)
  with False show ?thesis
    using assms
    by (simp add: ProposedAllocs_def Let_def not_nil_Slice elems_append_slice
        elems_FilterTerminalAllocs planned_evictions_def planned_placements_def)
qed

lemma index_map_upd_same: "index_map (m(k \<mapsto> s)) k = s"
  by (simp add: index_map_def)

lemma index_map_upd_other: "k' \<noteq> k \<Longrightarrow> index_map (m(k \<mapsto> s)) k' = index_map m k'"
  by (simp add: index_map_def)

lemma planned_evictions_recordEviction:
  "planned_evictions (e\<lparr>plan := recordEviction n a p\<rparr>) m =
     (if m = n then elems (index_map (NodeUpdate p) n) @ [a] else elems (index_map (NodeUpdate p) m))"
  by (simp add: planned_evictions_def recordEviction_def index_map_upd_same
      index_map_upd_other elems_append_slice)

lemma planned_placements_recordEviction:
  "planned_placements (e\<lparr>plan := recordEviction n a p\<rparr>) m = elems (index_map (NodeAllocation p) m)"
  by (simp add: planned_placements_def recordEviction_def)

lemma planned_placements_recordPlacement:
  "planned_placements (e\<lparr>plan := recordPlacement n a p\<rparr>) m =
     (if m = n then elems (index_map (NodeAllocation p) n) @ [a] else elems (index_map (NodeAllocation p) m))"
  by (simp add: planned_placements_def recordPlacement_def index_map_upd_same
      index_map_upd_other elems_append_slice)

lemma planned_evictions_recordPlacement:
  "planned_evictions (e\<lparr>plan := recordPlacement n a p\<rparr>) m = elems (index_map (NodeUpdate p) m)"
  by (simp add: planned_evictions_def recordPlacement_def)

lemma index_map_None: "m k = None \<Longrightarrow> elems (index_map m k) = []"
  by (simp add: index_map_def)

lemma ProposedAllocs_Inl:
  "AllocsByNode (state e) nodeID = Inl err \<Longrightarrow> ProposedAllocs e nodeID = (Inl err, e)"
  by (simp add: ProposedAllocs_def)

lemma filter_eq_removeAll:
  assumes "\<And>x. x \<in> set xs \<Longrightarrow> P x = (x \<noteq> a)"
  shows "filter P xs = removeAll a xs"
proof -
  have "filter P xs = filter (\<lambda>x. a \<noteq> x) xs"
    using assms by (intro filter_cong) auto
  then show ?thesis
    by (simp add: removeAll_filter_not_eq)
qed

lemma snd_ProposedAllocs: "snd (ProposedAllocs e nodeID) = e"
  by (simp add: ProposedAllocs_def Let_def split: sum.splits)

lemma state_Reset: "state (Reset e) = state e"
  by (simp add: Reset_def)

lemma plan_Reset: "plan (Reset e) = plan e"
  by (simp add: Reset_def)

lemma fst_ProposedAllocs_Reset: "fst (ProposedAllocs (Reset e) nodeID) = fst (ProposedAllocs e nodeID)"
  by (simp add: ProposedAllocs_def Reset_def Let_def split: sum.splits)

text \<open>
  No method of the context changes a cache field that is set, and none writes into a
  map object: an entry of the map behind \<^verbatim>\<open>reCache\<close> survives every call.
\<close>

lemma do_call_reCache:
  assumes "reCache e = Some a" and "a < length (reMaps h)" and "(reMaps h ! a) k = Some v"
    and "do_call c (e, h) = (e', h')"
  shows "reCache e' = Some a \<and> a < length (reMaps h') \<and> (reMaps h' ! a) k = Some v"
proof (cases c)
  case Call_RegexpCache
  then show ?thesis
    using assms by (auto simp add: RegexpCache_def)
next
  case Call_ConstraintCache
  then show ?thesis
    using assms by (auto simp add: ConstraintCache_def split: if_splits)
next
  case Call_Reset
  then show ?thesis
    using assms by (auto simp add: Reset_def)
next
  case (Call_SetState s)
  then show ?thesis
    using assms by (auto simp add: SetState_def)
next
  case (Call_ProposedAllocs n)
  then show ?thesis
    using assms by (auto simp add: snd_ProposedAllocs)
qed

lemma do_calls_reCache:
  "reCache e = Some a \<Longrightarrow> a < length (reMaps h) \<Longrightarrow> (reMaps h ! a) k = Some v \<Longrightarrow>
   do_calls cs (e, h) = (e', h') \<Longrightarrow>
   reCache e' = Some a \<and> a < length (reMaps h') \<and> (reMaps h' ! a) k = Some v"
proof (induction cs arbitrary: e h)
  case Nil
  then show ?case by simp
next
  case (Cons c cs)
  obtain e1 h1 where s: "do_call c (e, h) = (e1, h1)"
    by (cases "do_call c (e, h)")
  from do_call_reCache [OF Cons.prems(1,2,3) s]
  have i: "reCache e1 = Some a" "a < length (reMaps h1)" "(reMaps h1 ! a) k = Some v"
    by simp_all
  from Cons.prems(4) s have r: "do_calls cs (e1, h1) = (e', h')"
    by simp
  from Cons.IH [OF i r] show ?case .
qed

lemma do_call_constraintCache:
  assumes "constraintCache e = Some a" and "a < length (conMaps h)" and "(conMaps h ! a) k = Some v"
    and "do_call c (e, h) = (e', h')"
  shows "constraintCache e' = Some a \<and> a < length (conMaps h') \<and> (conMaps h' ! a) k = Some v"
proof (cases c)
  case Call_RegexpCache
  then show ?thesis
    using assms by (auto simp add: RegexpCache_def split: if_splits)
next
  case Call_ConstraintCache
  then show ?thesis
    using assms by (auto simp add: ConstraintCache_def)
next
  case Call_Reset
  then show ?thesis
    using assms by (auto simp add: Reset_def)
next
  case (Call_SetState s)
  then show ?thesis
    using assms by (auto simp add: SetState_def)
next
  case (Call_ProposedAllocs n)
  then show ?thesis
    using assms by (auto simp add: snd_ProposedAllocs)
qed

lemma do_calls_constraintCache:
  "constraintCache e = Some a \<Longrightarrow> a < length (conMaps h) \<Longrightarrow> (conMaps h ! a) k = Some v \<Longrightarrow>
   do_calls cs (e, h) = (e', h') \<Longrightarrow>
   constraintCache e' = Some a \<and> a < length (conMaps h') \<and> (conMaps h' ! a) k = Some v"
proof (induction cs arbitrary: e h)
  case Nil
  then show ?case by simp
next
  case (Cons c cs)
  obtain e1 h1 where s: "do_call c (e, h) = (e1, h1)"
    by (cases "do_call c (e, h)")
  from do_call_constraintCache [OF Cons.prems(1,2,3) s]
  have i: "constraintCache e1 = Some a" "a < length (conMaps h1)" "(conMaps h1 ! a) k = Some v"
    by simp_all
  from Cons.prems(4) s have r: "do_calls cs (e1, h1) = (e', h')"
    by simp
  from Cons.IH [OF i r] show ?case .
qed

text \<open>
  What the first call of an accessor returns: the address in the cache field, which is
  then a map object of the store.
\<close>

lemma RegexpCache_result:
  assumes "cache_ok e h" and "RegexpCache e h = (r, e1, h1)"
  shows "\<exists>a. r = Some a \<and> reCache e1 = Some a \<and> a < length (reMaps h1)"
  using assms by (auto simp add: RegexpCache_def cache_ok_def split: if_splits)

lemma ConstraintCache_result:
  assumes "cache_ok e h" and "ConstraintCache e h = (r, e1, h1)"
  shows "\<exists>a. r = Some a \<and> constraintCache e1 = Some a \<and> a < length (conMaps h1)"
  using assms by (auto simp add: ConstraintCache_def cache_ok_def split: if_splits)

text \<open>
  Every context that the program can reach fits its store: a new context does, and
  the method calls and the writes through a cache map keep it so.
\<close>

lemma cache_ok_NewEvalContext: "cache_ok (NewEvalContext s p log) h"
  by (simp add: cache_ok_def NewEvalContext_def)

lemma cache_ok_do_call:
  assumes "cache_ok e h" and "do_call c (e, h) = (e', h')"
  shows "cache_ok e' h'"
proof (cases c)
  case Call_RegexpCache
  then show ?thesis
    using assms by (auto simp add: cache_ok_def RegexpCache_def split: if_splits option.splits)
next
  case Call_ConstraintCache
  then show ?thesis
    using assms by (auto simp add: cache_ok_def ConstraintCache_def split: if_splits option.splits)
next
  case Call_Reset
  then show ?thesis
    using assms by (auto simp add: cache_ok_def Reset_def)
next
  case (Call_SetState s)
  then show ?thesis
    using assms by (auto simp add: cache_ok_def SetState_def)
next
  case (Call_ProposedAllocs n)
  then show ?thesis
    using assms by (auto simp add: snd_ProposedAllocs)
qed

lemma cache_ok_re_put: "cache_ok e h \<Longrightarrow> cache_ok e (re_put m k v h)"
  by (auto simp add: cache_ok_def re_put_def split: option.splits)

lemma cache_ok_con_put: "cache_ok e h \<Longrightarrow> cache_ok e (con_put m k v h)"
  by (auto simp add: cache_ok_def con_put_def split: option.splits)

text \<open>
  A cache field that is set stays set, and refers to the same map object, through every
  step: no method assigns a field that is not nil, and a write changes the contents
  of a map object, not the field. An entry of the map stays as long as no write
  stores under its key.
\<close>

lemma length_reMaps_re_put: "length (reMaps (re_put m k v h)) = length (reMaps h)"
  by (simp add: re_put_def split: option.splits)

lemma length_conMaps_con_put: "length (conMaps (con_put m k v h)) = length (conMaps h)"
  by (simp add: con_put_def split: option.splits)

lemma conMaps_re_put: "conMaps (re_put m k v h) = conMaps h"
  by (simp add: re_put_def split: option.splits)

lemma reMaps_con_put: "reMaps (con_put m k v h) = reMaps h"
  by (simp add: con_put_def split: option.splits)

lemma re_put_other_key:
  "k' \<noteq> k \<Longrightarrow> a < length (reMaps h) \<Longrightarrow> (reMaps (re_put m k' v h) ! a) k = (reMaps h ! a) k"
  by (cases m) (simp_all add: re_put_def nth_list_update)

lemma con_put_other_key:
  "k' \<noteq> k \<Longrightarrow> a < length (conMaps h) \<Longrightarrow> (conMaps (con_put m k' v h) ! a) k = (conMaps h ! a) k"
  by (cases m) (simp_all add: con_put_def nth_list_update)

lemma do_call_reCache_ref:
  assumes "reCache e = Some a" and "a < length (reMaps h)" and "do_call c (e, h) = (e', h')"
  shows "reCache e' = Some a \<and> a < length (reMaps h')"
proof (cases c)
  case Call_RegexpCache
  then show ?thesis
    using assms by (auto simp add: RegexpCache_def)
next
  case Call_ConstraintCache
  then show ?thesis
    using assms by (auto simp add: ConstraintCache_def split: if_splits)
next
  case Call_Reset
  then show ?thesis
    using assms by (auto simp add: Reset_def)
next
  case (Call_SetState s)
  then show ?thesis
    using assms by (auto simp add: SetState_def)
next
  case (Call_ProposedAllocs n)
  then show ?thesis
    using assms by (auto simp add: snd_ProposedAllocs)
qed

lemma do_call_constraintCache_ref:
  assumes "constraintCache e = Some a" and "a < length (conMaps h)" and "do_call c (e, h) = (e', h')"
  shows "constraintCache e' = Some a \<and> a < length (conMaps h')"
proof (cases c)
  case Call_RegexpCache
  then show ?thesis
    using assms by (auto simp add: RegexpCache_def split: if_splits)
next
  case Call_ConstraintCache
  then show ?thesis
    using assms by (auto simp add: ConstraintCache_def)
next
  case Call_Reset
  then show ?thesis
    using assms by (auto simp add: Reset_def)
next
  case (Call_SetState s)
  then show ?thesis
    using assms by (auto simp add: SetState_def)
next
  case (Call_ProposedAllocs n)
  then show ?thesis
    using assms by (auto simp add: snd_ProposedAllocs)
qed

lemma do_step_reCache_ref:
  assumes "reCache e = Some a" and "a < length (reMaps h)" and "do_step s (e, h) = (e', h')"
  shows "reCache e' = Some a \<and> a < length (reMaps h')"
proof (cases s)
  case (Method c)
  with assms(3) have "do_call c (e, h) = (e', h')"
    by simp
  from do_call_reCache_ref [OF assms(1,2) this] show ?thesis .
next
  case (Put_Regexp m k v)
  then show ?thesis
    using assms by (auto simp add: length_reMaps_re_put)
next
  case (Put_Constraint m k v)
  then show ?thesis
    using assms by (auto simp add: reMaps_con_put)
qed

lemma do_step_constraintCache_ref:
  assumes "constraintCache e = Some a" and "a < length (conMaps h)" and "do_step s (e, h) = (e', h')"
  shows "constraintCache e' = Some a \<and> a < length (conMaps h')"
proof (cases s)
  case (Method c)
  with assms(3) have "do_call c (e, h) = (e', h')"
    by simp
  from do_call_constraintCache_ref [OF assms(1,2) this] show ?thesis .
next
  case (Put_Regexp m k v)
  then show ?thesis
    using assms by (auto simp add: conMaps_re_put)
next
  case (Put_Constraint m k v)
  then show ?thesis
    using assms by (auto simp add: length_conMaps_con_put)
qed

lemma do_steps_reCache_ref:
  "reCache e = Some a \<Longrightarrow> a < length (reMaps h) \<Longrightarrow> do_steps ss (e, h) = (e', h') \<Longrightarrow>
   reCache e' = Some a \<and> a < length (reMaps h')"
proof (induction ss arbitrary: e h)
  case Nil
  then show ?case by simp
next
  case (Cons s ss)
  obtain e1 h1 where s: "do_step s (e, h) = (e1, h1)"
    by (cases "do_step s (e, h)")
  from do_step_reCache_ref [OF Cons.prems(1,2) s]
  have i: "reCache e1 = Some a" "a < length (reMaps h1)"
    by simp_all
  from Cons.prems(3) s have r: "do_steps ss (e1, h1) = (e', h')"
    by simp
  from Cons.IH [OF i r] show ?case .
qed

lemma do_steps_constraintCache_ref:
  "constraintCache e = Some a \<Longrightarrow> a < length (conMaps h) \<Longrightarrow> do_steps ss (e, h) = (e', h') \<Longrightarrow>
   constraintCache e' = Some a \<and> a < length (conMaps h')"
proof (induction ss arbitrary: e h)
  case Nil
  then show ?case by simp
next
  case (Cons s ss)
  obtain e1 h1 where s: "do_step s (e, h) = (e1, h1)"
    by (cases "do_step s (e, h)")
  from do_step_constraintCache_ref [OF Cons.prems(1,2) s]
  have i: "constraintCache e1 = Some a" "a < length (conMaps h1)"
    by simp_all
  from Cons.prems(3) s have r: "do_steps ss (e1, h1) = (e', h')"
    by simp
  from Cons.IH [OF i r] show ?case .
qed

lemma do_step_reCache_entry:
  assumes "reCache e = Some a" and "a < length (reMaps h)" and "(reMaps h ! a) k = Some v"
    and "\<not> overwrites_re k s" and "do_step s (e, h) = (e', h')"
  shows "reCache e' = Some a \<and> a < length (reMaps h') \<and> (reMaps h' ! a) k = Some v"
proof (cases s)
  case (Method c)
  with assms(5) have "do_call c (e, h) = (e', h')"
    by simp
  from do_call_reCache [OF assms(1,2,3) this] show ?thesis .
next
  case (Put_Regexp m k' v')
  with assms(4) have "k' \<noteq> k"
    by simp
  from re_put_other_key [OF this assms(2)] Put_Regexp assms(1,2,3,5) show ?thesis
    by (auto simp add: length_reMaps_re_put)
next
  case (Put_Constraint m k' v')
  then show ?thesis
    using assms by (auto simp add: reMaps_con_put)
qed

lemma do_step_constraintCache_entry:
  assumes "constraintCache e = Some a" and "a < length (conMaps h)" and "(conMaps h ! a) k = Some v"
    and "\<not> overwrites_con k s" and "do_step s (e, h) = (e', h')"
  shows "constraintCache e' = Some a \<and> a < length (conMaps h') \<and> (conMaps h' ! a) k = Some v"
proof (cases s)
  case (Method c)
  with assms(5) have "do_call c (e, h) = (e', h')"
    by simp
  from do_call_constraintCache [OF assms(1,2,3) this] show ?thesis .
next
  case (Put_Regexp m k' v')
  then show ?thesis
    using assms by (auto simp add: conMaps_re_put)
next
  case (Put_Constraint m k' v')
  with assms(4) have "k' \<noteq> k"
    by simp
  from con_put_other_key [OF this assms(2)] Put_Constraint assms(1,2,3,5) show ?thesis
    by (auto simp add: length_conMaps_con_put)
qed

lemma do_steps_reCache_entry:
  "reCache e = Some a \<Longrightarrow> a < length (reMaps h) \<Longrightarrow> (reMaps h ! a) k = Some v \<Longrightarrow>
   list_all (\<lambda>s. \<not> overwrites_re k s) ss \<Longrightarrow> do_steps ss (e, h) = (e', h') \<Longrightarrow>
   reCache e' = Some a \<and> a < length (reMaps h') \<and> (reMaps h' ! a) k = Some v"
proof (induction ss arbitrary: e h)
  case Nil
  then show ?case by simp
next
  case (Cons s ss)
  obtain e1 h1 where s: "do_step s (e, h) = (e1, h1)"
    by (cases "do_step s (e, h)")
  from Cons.prems(4) have n: "\<not> overwrites_re k s" and rest: "list_all (\<lambda>s. \<not> overwrites_re k s) ss"
    by simp_all
  from do_step_reCache_entry [OF Cons.prems(1,2,3) n s]
  have i: "reCache e1 = Some a" "a < length (reMaps h1)" "(reMaps h1 ! a) k = Some v"
    by simp_all
  from Cons.prems(5) s have r: "do_steps ss (e1, h1) = (e', h')"
    by simp
  from Cons.IH [OF i rest r] show ?case .
qed

lemma do_steps_constraintCache_entry:
  "constraintCache e = Some a \<Longrightarrow> a < length (conMaps h) \<Longrightarrow> (conMaps h ! a) k = Some v \<Longrightarrow>
   list_all (\<lambda>s. \<not> overwrites_con k s) ss \<Longrightarrow> do_steps ss (e, h) = (e', h') \<Longrightarrow>
   constraintCache e' = Some a \<and> a < length (conMaps h') \<and> (conMaps h' ! a) k = Some v"
proof (induction ss arbitrary: e h)
  case Nil
  then show ?case by simp
next
  case (Cons s ss)
  obtain e1 h1 where s: "do_step s (e, h) = (e1, h1)"
    by (cases "do_step s (e, h)")
  from Cons.prems(4) have n: "\<not> overwrites_con k s" and rest: "list_all (\<lambda>s. \<not> overwrites_con k s) ss"
    by simp_all
  from do_step_constraintCache_entry [OF Cons.prems(1,2,3) n s]
  have i: "constraintCache e1 = Some a" "a < length (conMaps h1)" "(conMaps h1 ! a) k = Some v"
    by simp_all
  from Cons.prems(5) s have r: "do_steps ss (e1, h1) = (e', h')"
    by simp
  from Cons.IH [OF i rest r] show ?case .
qed

text \<open>
  C1: the state view reports \<open>[a1, a2]\<close> for the node, \<open>a1\<close> running and \<open>a2\<close>
  complete, and the plan has no entry for the node. Then \<^verbatim>\<open>ProposedAllocs\<close> returns
  \<open>[a1]\<close>; after a placement of \<open>a3\<close> is recorded for the node it returns
  \<open>[a1, a3]\<close>; after an eviction of \<open>a1\<close> is recorded as well it returns \<open>[a3]\<close>.
\<close>

theorem ProposedAllocs_scenario:
  assumes "AllocsByNode (state e) N = Inr (Slice [a1, a2])"
    and "Status a1 = Running" and "Status a2 = Complete"
    and "NodeUpdate (plan e) N = None" and "NodeAllocation (plan e) N = None"
  shows "fst (ProposedAllocs e N) = Inr (Slice [a1]) \<and>
         fst (ProposedAllocs (e\<lparr>plan := recordPlacement N a3 (plan e)\<rparr>) N) = Inr (Slice [a1, a3]) \<and>
         fst (ProposedAllocs
                (e\<lparr>plan := recordEviction N a1 (recordPlacement N a3 (plan e))\<rparr>) N) = Inr (Slice [a3])"
proof -
  have t: "\<not> TerminalStatus a1" "TerminalStatus a2"
    using assms(2,3) by (simp_all add: TerminalStatus_def)
  have s1: "fst (ProposedAllocs e N) = Inr (Slice [a1])"
    using ProposedAllocs_elems [OF assms(1)] t assms(4,5)
    by (simp add: planned_evictions_def planned_placements_def index_map_None)
  have q2: "AllocsByNode (state (e\<lparr>plan := recordPlacement N a3 (plan e)\<rparr>)) N = Inr (Slice [a1, a2])"
    using assms(1) by simp
  have s2: "fst (ProposedAllocs (e\<lparr>plan := recordPlacement N a3 (plan e)\<rparr>) N) = Inr (Slice [a1, a3])"
    using ProposedAllocs_elems [OF q2] t assms(4,5)
    by (simp add: planned_evictions_recordPlacement planned_placements_recordPlacement
        index_map_None)
  have q3: "AllocsByNode (state (e\<lparr>plan := recordEviction N a1 (recordPlacement N a3 (plan e))\<rparr>)) N
              = Inr (Slice [a1, a2])"
    using assms(1) by simp
  have u: "elems (index_map (NodeUpdate (recordPlacement N a3 (plan e))) N) = []"
    using assms(4) by (simp add: recordPlacement_def index_map_None)
  have p: "elems (index_map (NodeAllocation (recordPlacement N a3 (plan e))) N) = [a3]"
    using assms(5) by (simp add: recordPlacement_def index_map_upd_same elems_append_slice index_map_None)
  have s3: "fst (ProposedAllocs
                (e\<lparr>plan := recordEviction N a1 (recordPlacement N a3 (plan e))\<rparr>) N) = Inr (Slice [a3])"
    using ProposedAllocs_elems [OF q3] t u p
    by (simp add: planned_evictions_recordEviction planned_placements_recordEviction)
  from s1 s2 s3 show ?thesis by simp
qed

theorem ProposedAllocs_scenario_witness:
  "fst (ProposedAllocs
          (NewEvalContext
             (ex_state (Slice [ex_alloc ''a1'' ''web'' Running, ex_alloc ''a2'' ''web'' Complete]))
             ex_plan 0) ''N'')
     = Inr (Slice [ex_alloc ''a1'' ''web'' Running]) \<and>
   fst (ProposedAllocs
          ((NewEvalContext
             (ex_state (Slice [ex_alloc ''a1'' ''web'' Running, ex_alloc ''a2'' ''web'' Complete]))
             ex_plan 0)
           \<lparr>plan := recordPlacement ''N'' (ex_alloc ''a3'' ''db'' Pending) ex_plan\<rparr>) ''N'')
     = Inr (Slice [ex_alloc ''a1'' ''web'' Running, ex_alloc ''a3'' ''db'' Pending]) \<and>
   fst (ProposedAllocs
          ((NewEvalContext
             (ex_state (Slice [ex_alloc ''a1'' ''web'' Running, ex_alloc ''a2'' ''web'' Complete]))
             ex_plan 0)
           \<lparr>plan := recordEviction ''N'' (ex_alloc ''a1'' ''web'' Running)
                      (recordPlacement ''N'' (ex_alloc ''a3'' ''db'' Pending) ex_plan)\<rparr>) ''N'')
     = Inr (Slice [ex_alloc ''a3'' ''db'' Pending])"
  using ProposedAllocs_scenario
    [of "NewEvalContext
           (ex_state (Slice [ex_alloc ''a1'' ''web'' Running, ex_alloc ''a2'' ''web'' Complete]))
           ex_plan 0"
        "''N''" "ex_alloc ''a1'' ''web'' Running" "ex_alloc ''a2'' ''web'' Complete"
        "ex_alloc ''a3'' ''db'' Pending"]
  by (simp add: NewEvalContext_def ex_state_def ex_plan_def ex_alloc_def)

text \<open>
  C3: when the query of the state view for the allocations of the node fails,
  \<^verbatim>\<open>ProposedAllocs\<close> returns that error, and no allocation sequence.
\<close>

theorem ProposedAllocs_state_error:
  "AllocsByNode (state e) nodeID = Inl err \<Longrightarrow> fst (ProposedAllocs e nodeID) = Inl err"
  by (simp add: ProposedAllocs_def)

theorem ProposedAllocs_state_error_witness:
  "AllocsByNode (state (NewEvalContext ex_state_down ex_plan 0)) ''N''
     = Inl (StateUnavailable ''snapshot read failed'') \<and>
   fst (ProposedAllocs (NewEvalContext ex_state_down ex_plan 0) ''N'')
     = Inl (StateUnavailable ''snapshot read failed'')"
proof -
  have q: "AllocsByNode (state (NewEvalContext ex_state_down ex_plan 0)) ''N''
             = Inl (StateUnavailable ''snapshot read failed'')"
    by (simp add: NewEvalContext_def ex_state_down_def)
  from q ProposedAllocs_state_error [OF q] show ?thesis by simp
qed

text \<open>
  C4: when the query of the state view succeeds, \<^verbatim>\<open>ProposedAllocs\<close> returns a slice
  that is not nil; for a node with no allocation (the state view answers nil or an
  empty slice) and no entry in the plan it is the empty slice.
\<close>

theorem ProposedAllocs_not_nil:
  "(AllocsByNode (state e) nodeID = Inr existing \<longrightarrow>
      fst (ProposedAllocs e nodeID) \<noteq> Inr NilSlice \<and>
      (\<exists>xs. fst (ProposedAllocs e nodeID) = Inr (Slice xs))) \<and>
   (AllocsByNode (state e) nodeID = Inr existing \<and> elems existing = [] \<and>
    NodeUpdate (plan e) nodeID = None \<and> NodeAllocation (plan e) nodeID = None \<longrightarrow>
      fst (ProposedAllocs e nodeID) = Inr (Slice []))"
proof (intro conjI impI)
  assume ok: "AllocsByNode (state e) nodeID = Inr existing"
  show "\<exists>xs. fst (ProposedAllocs e nodeID) = Inr (Slice xs)"
    using ok by (simp add: ProposedAllocs_def Let_def not_nil_Slice)
  then show "fst (ProposedAllocs e nodeID) \<noteq> Inr NilSlice"
    by auto
next
  assume h: "AllocsByNode (state e) nodeID = Inr existing \<and> elems existing = [] \<and>
    NodeUpdate (plan e) nodeID = None \<and> NodeAllocation (plan e) nodeID = None"
  then show "fst (ProposedAllocs e nodeID) = Inr (Slice [])"
    by (cases existing)
       (simp_all add: ProposedAllocs_def Let_def append_slice_def index_map_def
          FilterTerminalAllocs_def len_def)
qed

theorem ProposedAllocs_not_nil_witness:
  "AllocsByNode (state (NewEvalContext (ex_state NilSlice) ex_plan 0)) ''N'' = Inr NilSlice \<and>
   elems (NilSlice :: Allocation slice) = [] \<and>
   NodeUpdate (plan (NewEvalContext (ex_state NilSlice) ex_plan 0)) ''N'' = None \<and>
   NodeAllocation (plan (NewEvalContext (ex_state NilSlice) ex_plan 0)) ''N'' = None \<and>
   fst (ProposedAllocs (NewEvalContext (ex_state NilSlice) ex_plan 0) ''N'') \<noteq> Inr NilSlice \<and>
   fst (ProposedAllocs (NewEvalContext (ex_state NilSlice) ex_plan 0) ''N'') = Inr (Slice [])"
  using ProposedAllocs_not_nil [of "NewEvalContext (ex_state NilSlice) ex_plan 0" "''N''" NilSlice]
  by (simp add: NewEvalContext_def ex_state_def ex_plan_def)


text \<open>
  C2 (as amended): a terminal allocation is part of the sequence that
  \<^verbatim>\<open>ProposedAllocs\<close> returns for a node only when the plan records it as a placement
  of that node; the terminal allocations among those the state view reports are
  filtered out, whatever evictions the plan records. The claim as stated, which also
  excludes a terminal allocation recorded as a placement, fails: the placements are
  appended after the filter.
\<close>

theorem ProposedAllocs_terminal_only_placed:
  assumes "fst (ProposedAllocs e nodeID) = Inr s"
    and "a \<in> set (elems s)" and "TerminalStatus a"
  shows "a \<in> set (planned_placements e nodeID)"
proof (cases "AllocsByNode (state e) nodeID")
  case (Inl err)
  then have "fst (ProposedAllocs e nodeID) = Inl err"
    by (simp add: ProposedAllocs_Inl)
  with assms(1) show ?thesis by simp
next
  case (Inr existing)
  from ProposedAllocs_elems [OF Inr] assms(1)
  have "elems s = filter (\<lambda>a. ID a \<notin> set (map ID (planned_evictions e nodeID)))
                    (filter (\<lambda>a. \<not> TerminalStatus a) (elems existing))
                  @ planned_placements e nodeID"
    by auto
  with assms(2,3) show ?thesis by auto
qed

theorem ProposedAllocs_terminal_only_placed_witness:
  "fst (ProposedAllocs
          (NewEvalContext
             (ex_state (Slice [ex_alloc ''a1'' ''web'' Running, ex_alloc ''a2'' ''web'' Complete]))
             (recordPlacement ''N'' (ex_alloc ''a2'' ''web'' Complete) ex_plan) 0) ''N'')
     = Inr (Slice [ex_alloc ''a1'' ''web'' Running, ex_alloc ''a2'' ''web'' Complete]) \<and>
   ex_alloc ''a2'' ''web'' Complete
     \<in> set (elems (Slice [ex_alloc ''a1'' ''web'' Running, ex_alloc ''a2'' ''web'' Complete])) \<and>
   TerminalStatus (ex_alloc ''a2'' ''web'' Complete) \<and>
   ex_alloc ''a2'' ''web'' Complete
     \<in> set (planned_placements
              (NewEvalContext
                 (ex_state (Slice [ex_alloc ''a1'' ''web'' Running, ex_alloc ''a2'' ''web'' Complete]))
                 (recordPlacement ''N'' (ex_alloc ''a2'' ''web'' Complete) ex_plan) 0) ''N'')"
proof -
  let ?e = "NewEvalContext
             (ex_state (Slice [ex_alloc ''a1'' ''web'' Running, ex_alloc ''a2'' ''web'' Complete]))
             (recordPlacement ''N'' (ex_alloc ''a2'' ''web'' Complete) ex_plan) 0"
  let ?s = "Slice [ex_alloc ''a1'' ''web'' Running, ex_alloc ''a2'' ''web'' Complete]"
  have r: "fst (ProposedAllocs ?e ''N'') = Inr ?s"
    by (simp add: ProposedAllocs_def NewEvalContext_def ex_state_def ex_plan_def ex_alloc_def
        recordPlacement_def FilterTerminalAllocs_def TerminalStatus_def index_map_def
        append_slice_def len_def Let_def)
  have m: "ex_alloc ''a2'' ''web'' Complete \<in> set (elems ?s)"
    by simp
  have t: "TerminalStatus (ex_alloc ''a2'' ''web'' Complete)"
    by (simp add: TerminalStatus_def ex_alloc_def)
  from r m t ProposedAllocs_terminal_only_placed [OF r m t] show ?thesis
    by simp
qed

theorem ProposedAllocs_terminal_counterexample:
  "TerminalStatus (ex_alloc ''a2'' ''web'' Complete) \<and>
   fst (ProposedAllocs
          (NewEvalContext
             (ex_state (Slice [ex_alloc ''a1'' ''web'' Running, ex_alloc ''a2'' ''web'' Complete]))
             (recordPlacement ''N'' (ex_alloc ''a2'' ''web'' Complete) ex_plan) 0) ''N'')
     = Inr (Slice [ex_alloc ''a1'' ''web'' Running, ex_alloc ''a2'' ''web'' Complete])"
  by (simp add: ProposedAllocs_def NewEvalContext_def ex_state_def ex_plan_def ex_alloc_def
      recordPlacement_def FilterTerminalAllocs_def TerminalStatus_def index_map_def
      append_slice_def len_def Let_def)

text \<open>
  C5: the state view reports for the node exactly the allocations \<open>A\<close> and \<open>B\<close>,
  neither terminal, and the plan has no entry for the node. After an eviction of \<open>A\<close>
  and a placement of \<open>C\<close> are recorded for the node, in either order,
  \<^verbatim>\<open>ProposedAllocs\<close> returns the allocations of the state view without \<open>A\<close>, followed by
  \<open>C\<close>: as a set, exactly \<open>{B, C}\<close>.
\<close>

theorem ProposedAllocs_evict_then_place:
  assumes "AllocsByNode (state e) nodeID = Inr (Slice xs)" and "set xs = {A, B}"
    and "\<not> TerminalStatus A" and "\<not> TerminalStatus B" and "ID A \<noteq> ID B"
    and "NodeUpdate (plan e) nodeID = None" and "NodeAllocation (plan e) nodeID = None"
  shows "fst (ProposedAllocs (e\<lparr>plan := recordPlacement nodeID C (recordEviction nodeID A (plan e))\<rparr>) nodeID)
           = Inr (Slice (removeAll A xs @ [C])) \<and>
         fst (ProposedAllocs (e\<lparr>plan := recordEviction nodeID A (recordPlacement nodeID C (plan e))\<rparr>) nodeID)
           = Inr (Slice (removeAll A xs @ [C])) \<and>
         set (removeAll A xs @ [C]) = {B, C}"
proof -
  have nt: "filter (\<lambda>a. \<not> TerminalStatus a) xs = xs"
    using assms(2,3,4) by (intro filter_True) auto
  have rm: "filter (\<lambda>a. ID a \<notin> set (map ID [A])) xs = removeAll A xs"
    using assms(2,5) by (intro filter_eq_removeAll) auto
  have ev0: "elems (index_map (NodeUpdate (plan e)) nodeID) = []"
    and pl0: "elems (index_map (NodeAllocation (plan e)) nodeID) = []"
    using assms(6,7) by (simp_all add: index_map_None)
  let ?e1 = "e\<lparr>plan := recordPlacement nodeID C (recordEviction nodeID A (plan e))\<rparr>"
  let ?e2 = "e\<lparr>plan := recordEviction nodeID A (recordPlacement nodeID C (plan e))\<rparr>"
  have q1: "AllocsByNode (state ?e1) nodeID = Inr (Slice xs)"
    and q2: "AllocsByNode (state ?e2) nodeID = Inr (Slice xs)"
    using assms(1) by simp_all
  have ev1: "planned_evictions ?e1 nodeID = [A]"
    using ev0 by (simp add: planned_evictions_recordPlacement recordEviction_def
        index_map_upd_same elems_append_slice)
  have pl1: "planned_placements ?e1 nodeID = [C]"
    using pl0 by (simp add: planned_placements_recordPlacement recordEviction_def)
  have ev2: "planned_evictions ?e2 nodeID = [A]"
    using ev0 by (simp add: planned_evictions_recordEviction recordPlacement_def)
  have pl2: "planned_placements ?e2 nodeID = [C]"
    using pl0 by (simp add: planned_placements_recordEviction recordPlacement_def
        index_map_upd_same elems_append_slice)
  have r1: "fst (ProposedAllocs ?e1 nodeID) = Inr (Slice (removeAll A xs @ [C]))"
    using ProposedAllocs_elems [OF q1] by (simp only: ev1 pl1 elems.simps nt rm)
  have r2: "fst (ProposedAllocs ?e2 nodeID) = Inr (Slice (removeAll A xs @ [C]))"
    using ProposedAllocs_elems [OF q2] by (simp only: ev2 pl2 elems.simps nt rm)
  have "A \<noteq> B"
    using assms(5) by auto
  then have s: "set (removeAll A xs @ [C]) = {B, C}"
    using assms(2) by auto
  from r1 r2 s show ?thesis by simp
qed

theorem ProposedAllocs_evict_then_place_witness:
  "fst (ProposedAllocs
          ((NewEvalContext
              (ex_state (Slice [ex_alloc ''a'' ''web'' Running, ex_alloc ''b'' ''web'' Pending]))
              ex_plan 0)
           \<lparr>plan := recordPlacement ''N'' (ex_alloc ''c'' ''db'' Pending)
                      (recordEviction ''N'' (ex_alloc ''a'' ''web'' Running) ex_plan)\<rparr>) ''N'')
     = Inr (Slice [ex_alloc ''b'' ''web'' Pending, ex_alloc ''c'' ''db'' Pending]) \<and>
   fst (ProposedAllocs
          ((NewEvalContext
              (ex_state (Slice [ex_alloc ''a'' ''web'' Running, ex_alloc ''b'' ''web'' Pending]))
              ex_plan 0)
           \<lparr>plan := recordEviction ''N'' (ex_alloc ''a'' ''web'' Running)
                      (recordPlacement ''N'' (ex_alloc ''c'' ''db'' Pending) ex_plan)\<rparr>) ''N'')
     = Inr (Slice [ex_alloc ''b'' ''web'' Pending, ex_alloc ''c'' ''db'' Pending])"
  using ProposedAllocs_evict_then_place
    [of "NewEvalContext
           (ex_state (Slice [ex_alloc ''a'' ''web'' Running, ex_alloc ''b'' ''web'' Pending]))
           ex_plan 0"
        "''N''" "[ex_alloc ''a'' ''web'' Running, ex_alloc ''b'' ''web'' Pending]"
        "ex_alloc ''a'' ''web'' Running" "ex_alloc ''b'' ''web'' Pending"
        "ex_alloc ''c'' ''db'' Pending"]
  by (simp add: NewEvalContext_def ex_state_def ex_plan_def ex_alloc_def TerminalStatus_def)


text \<open>
  C7: when the query of the state view succeeds, \<^verbatim>\<open>ProposedAllocs\<close> keeps, of the
  allocations of the state view that are not terminal, exactly those whose identity is
  not the identity of an eviction the plan records for the node, and appends the
  placements. The task name plays no part: an allocation \<open>b\<close> of the same task as an
  evicted allocation \<open>a\<close>, with the identity of no evicted allocation, stays in the
  projection.
\<close>

theorem ProposedAllocs_evicts_by_identity:
  assumes "AllocsByNode (state e) nodeID = Inr existing"
  shows "fst (ProposedAllocs e nodeID) =
           Inr (Slice (filter (\<lambda>x. ID x \<notin> ID ` set (planned_evictions e nodeID))
                        (filter (\<lambda>x. \<not> TerminalStatus x) (elems existing))
                       @ planned_placements e nodeID)) \<and>
         (a \<in> set (planned_evictions e nodeID) \<and> b \<in> set (elems existing) \<and>
          TaskName b = TaskName a \<and> \<not> TerminalStatus b \<and>
          ID b \<notin> ID ` set (planned_evictions e nodeID) \<longrightarrow>
            (\<exists>xs. fst (ProposedAllocs e nodeID) = Inr (Slice xs) \<and> b \<in> set xs))"
proof -
  have r: "fst (ProposedAllocs e nodeID) =
           Inr (Slice (filter (\<lambda>x. ID x \<notin> ID ` set (planned_evictions e nodeID))
                        (filter (\<lambda>x. \<not> TerminalStatus x) (elems existing))
                       @ planned_placements e nodeID))"
    using ProposedAllocs_elems [OF assms] by simp
  show ?thesis
  proof (intro conjI impI)
    show "fst (ProposedAllocs e nodeID) =
           Inr (Slice (filter (\<lambda>x. ID x \<notin> ID ` set (planned_evictions e nodeID))
                        (filter (\<lambda>x. \<not> TerminalStatus x) (elems existing))
                       @ planned_placements e nodeID))"
      by (rule r)
  next
    assume h: "a \<in> set (planned_evictions e nodeID) \<and> b \<in> set (elems existing) \<and>
          TaskName b = TaskName a \<and> \<not> TerminalStatus b \<and>
          ID b \<notin> ID ` set (planned_evictions e nodeID)"
    then have "b \<in> set (filter (\<lambda>x. ID x \<notin> ID ` set (planned_evictions e nodeID))
                        (filter (\<lambda>x. \<not> TerminalStatus x) (elems existing))
                       @ planned_placements e nodeID)"
      by simp
    with r show "\<exists>xs. fst (ProposedAllocs e nodeID) = Inr (Slice xs) \<and> b \<in> set xs"
      by blast
  qed
qed

theorem ProposedAllocs_evicts_by_identity_witness:
  "AllocsByNode
     (state (NewEvalContext
        (ex_state (Slice [ex_alloc ''a'' ''web'' Running, ex_alloc ''b'' ''web'' Running]))
        (recordEviction ''N'' (ex_alloc ''a'' ''web'' Running) ex_plan) 0)) ''N''
     = Inr (Slice [ex_alloc ''a'' ''web'' Running, ex_alloc ''b'' ''web'' Running]) \<and>
   TaskName (ex_alloc ''b'' ''web'' Running) = TaskName (ex_alloc ''a'' ''web'' Running) \<and>
   fst (ProposedAllocs
          (NewEvalContext
             (ex_state (Slice [ex_alloc ''a'' ''web'' Running, ex_alloc ''b'' ''web'' Running]))
             (recordEviction ''N'' (ex_alloc ''a'' ''web'' Running) ex_plan) 0) ''N'')
     = Inr (Slice [ex_alloc ''b'' ''web'' Running])"
  using ProposedAllocs_evicts_by_identity
    [of "NewEvalContext
           (ex_state (Slice [ex_alloc ''a'' ''web'' Running, ex_alloc ''b'' ''web'' Running]))
           (recordEviction ''N'' (ex_alloc ''a'' ''web'' Running) ex_plan) 0"
        "''N''" "Slice [ex_alloc ''a'' ''web'' Running, ex_alloc ''b'' ''web'' Running]"
        "ex_alloc ''a'' ''web'' Running" "ex_alloc ''b'' ''web'' Running"]
  by (simp add: NewEvalContext_def ex_state_def ex_plan_def ex_alloc_def TerminalStatus_def
      planned_evictions_def planned_placements_def recordEviction_def index_map_def
      append_slice_def len_def)

text \<open>
  C8: recording the same eviction for a node twice gives, for every node, the same
  result of \<^verbatim>\<open>ProposedAllocs\<close> as recording it once.
\<close>

theorem recordEviction_twice:
  "fst (ProposedAllocs (e\<lparr>plan := recordEviction n a (recordEviction n a p)\<rparr>) m) =
   fst (ProposedAllocs (e\<lparr>plan := recordEviction n a p\<rparr>) m)"
proof (cases "AllocsByNode (state e) m")
  case (Inl err)
  then show ?thesis
    by (simp add: ProposedAllocs_Inl)
next
  case (Inr existing)
  let ?e2 = "e\<lparr>plan := recordEviction n a (recordEviction n a p)\<rparr>"
  let ?e1 = "e\<lparr>plan := recordEviction n a p\<rparr>"
  have q2: "AllocsByNode (state ?e2) m = Inr existing"
    and q1: "AllocsByNode (state ?e1) m = Inr existing"
    using Inr by simp_all
  have x: "elems (index_map (NodeUpdate (recordEviction n a p)) k) = planned_evictions ?e1 k" for k
    by (simp add: planned_evictions_def)
  have a2: "planned_evictions ?e2 m =
              (if m = n then planned_evictions ?e1 n @ [a] else planned_evictions ?e1 m)"
    by (simp only: planned_evictions_recordEviction x)
  have a1: "planned_evictions ?e1 n = elems (index_map (NodeUpdate p) n) @ [a]"
    by (simp add: planned_evictions_recordEviction)
  have ev: "set (map ID (planned_evictions ?e2 m)) = set (map ID (planned_evictions ?e1 m))"
    by (auto simp add: a2 a1)
  have pl: "planned_placements ?e2 m = planned_placements ?e1 m"
    by (simp add: planned_placements_def recordEviction_def)
  show ?thesis
    using ProposedAllocs_elems [OF q2] ProposedAllocs_elems [OF q1]
    by (simp only: ev pl)
qed

theorem recordEviction_twice_witness:
  "fst (ProposedAllocs
          ((NewEvalContext
              (ex_state (Slice [ex_alloc ''a'' ''web'' Running, ex_alloc ''b'' ''web'' Running]))
              ex_plan 0)
           \<lparr>plan := recordEviction ''N'' (ex_alloc ''a'' ''web'' Running)
                      (recordEviction ''N'' (ex_alloc ''a'' ''web'' Running) ex_plan)\<rparr>) ''N'')
     = Inr (Slice [ex_alloc ''b'' ''web'' Running])"
proof -
  have once: "fst (ProposedAllocs
          ((NewEvalContext
              (ex_state (Slice [ex_alloc ''a'' ''web'' Running, ex_alloc ''b'' ''web'' Running]))
              ex_plan 0)
           \<lparr>plan := recordEviction ''N'' (ex_alloc ''a'' ''web'' Running) ex_plan\<rparr>) ''N'')
     = Inr (Slice [ex_alloc ''b'' ''web'' Running])"
    by (simp add: ProposedAllocs_def NewEvalContext_def ex_state_def ex_plan_def ex_alloc_def
        recordEviction_def FilterTerminalAllocs_def RemoveAllocs_def TerminalStatus_def
        index_map_def append_slice_def len_def Let_def)
  show ?thesis
    by (simp only: recordEviction_twice once)
qed


text \<open>
  C6: \<^verbatim>\<open>Reset\<close> replaces the metrics by a fresh accumulator (no node counted) and
  changes nothing else: the plan, the state view and the two cache fields are as
  before, the store is not touched, \<^verbatim>\<open>ProposedAllocs\<close> answers as before, a placement
  recorded in the plan before \<^verbatim>\<open>Reset\<close> is in the projection computed after it, and an
  entry of a cache map is still there through the map the accessor returns afterwards.
\<close>

theorem Reset_only_metrics:
  "metrics (Reset e) = new_AllocMetric \<and> NodesEvaluated (metrics (Reset e)) = 0 \<and>
   plan (Reset e) = plan e \<and> state (Reset e) = state e \<and> logger (Reset e) = logger e \<and>
   reCache (Reset e) = reCache e \<and> constraintCache (Reset e) = constraintCache e \<and>
   do_call Call_Reset (e, h) = (Reset e, h) \<and>
   fst (ProposedAllocs (Reset e) nodeID) = fst (ProposedAllocs e nodeID) \<and>
   (AllocsByNode (state e) nodeID = Inr existing \<longrightarrow>
      (\<exists>xs. fst (ProposedAllocs (Reset (e\<lparr>plan := recordPlacement nodeID a (plan e)\<rparr>)) nodeID)
               = Inr (Slice xs) \<and> a \<in> set xs)) \<and>
   (re_get (reCache e) k h = Some v \<longrightarrow>
      re_get (fst (RegexpCache (Reset e) h)) k (snd (snd (RegexpCache (Reset e) h))) = Some v) \<and>
   (con_get (constraintCache e) k' h = Some w \<longrightarrow>
      con_get (fst (ConstraintCache (Reset e) h)) k' (snd (snd (ConstraintCache (Reset e) h))) = Some w)"
proof (intro conjI impI)
  show "metrics (Reset e) = new_AllocMetric"
    by (simp add: Reset_def)
  show "NodesEvaluated (metrics (Reset e)) = 0"
    by (simp add: Reset_def new_AllocMetric_def)
  show "plan (Reset e) = plan e"
    by (rule plan_Reset)
  show "state (Reset e) = state e"
    by (rule state_Reset)
  show "logger (Reset e) = logger e"
    by (simp add: Reset_def)
  show "reCache (Reset e) = reCache e"
    by (simp add: Reset_def)
  show "constraintCache (Reset e) = constraintCache e"
    by (simp add: Reset_def)
  show "do_call Call_Reset (e, h) = (Reset e, h)"
    by simp
  show "fst (ProposedAllocs (Reset e) nodeID) = fst (ProposedAllocs e nodeID)"
    by (rule fst_ProposedAllocs_Reset)
next
  assume q: "AllocsByNode (state e) nodeID = Inr existing"
  let ?e = "e\<lparr>plan := recordPlacement nodeID a (plan e)\<rparr>"
  have q': "AllocsByNode (state ?e) nodeID = Inr existing"
    using q by simp
  have "a \<in> set (planned_placements ?e nodeID)"
    by (simp add: planned_placements_recordPlacement)
  with ProposedAllocs_elems [OF q']
  have "\<exists>xs. fst (ProposedAllocs ?e nodeID) = Inr (Slice xs) \<and> a \<in> set xs"
    by simp
  then show "\<exists>xs. fst (ProposedAllocs (Reset ?e) nodeID) = Inr (Slice xs) \<and> a \<in> set xs"
    by (simp only: fst_ProposedAllocs_Reset)
next
  assume "re_get (reCache e) k h = Some v"
  then show "re_get (fst (RegexpCache (Reset e) h)) k (snd (snd (RegexpCache (Reset e) h))) = Some v"
    by (cases "reCache e") (simp_all add: re_get_def RegexpCache_def Reset_def)
next
  assume "con_get (constraintCache e) k' h = Some w"
  then show "con_get (fst (ConstraintCache (Reset e) h)) k' (snd (snd (ConstraintCache (Reset e) h))) = Some w"
    by (cases "constraintCache e") (simp_all add: con_get_def ConstraintCache_def Reset_def)
qed


theorem Reset_only_metrics_witness:
  "NodesEvaluated (metrics ex_ctx_used) = 3 \<and>
   NodesEvaluated (metrics (Reset ex_ctx_used)) = 0 \<and>
   AllocsByNode (state ex_ctx_used) ''N'' = Inr (Slice [ex_alloc ''a1'' ''web'' Running]) \<and>
   fst (ProposedAllocs
          (Reset (ex_ctx_used\<lparr>plan := recordPlacement ''N'' (ex_alloc ''a3'' ''db'' Pending)
                                        (plan ex_ctx_used)\<rparr>)) ''N'')
     = Inr (Slice [ex_alloc ''a1'' ''web'' Running, ex_alloc ''a3'' ''db'' Pending]) \<and>
   re_get (reCache ex_ctx_used) ''^web'' ex_store_used = Some 7 \<and>
   re_get (fst (RegexpCache (Reset ex_ctx_used) ex_store_used)) ''^web''
          (snd (snd (RegexpCache (Reset ex_ctx_used) ex_store_used))) = Some 7 \<and>
   con_get (constraintCache ex_ctx_used) ''>= 1.0'' ex_store_used = Some 5 \<and>
   con_get (fst (ConstraintCache (Reset ex_ctx_used) ex_store_used)) ''>= 1.0''
          (snd (snd (ConstraintCache (Reset ex_ctx_used) ex_store_used))) = Some 5"
proof -
  have q: "AllocsByNode (state ex_ctx_used) ''N'' = Inr (Slice [ex_alloc ''a1'' ''web'' Running])"
    by (simp add: ex_ctx_used_def ex_state_def)
  have g: "re_get (reCache ex_ctx_used) ''^web'' ex_store_used = Some 7"
    by (simp add: re_get_def ex_ctx_used_def ex_store_used_def)
  have c: "con_get (constraintCache ex_ctx_used) ''>= 1.0'' ex_store_used = Some 5"
    by (simp add: con_get_def ex_ctx_used_def ex_store_used_def)
  have m: "NodesEvaluated (metrics ex_ctx_used) = 3"
    by (simp add: ex_ctx_used_def)
  have p: "fst (ProposedAllocs
          (Reset (ex_ctx_used\<lparr>plan := recordPlacement ''N'' (ex_alloc ''a3'' ''db'' Pending)
                                        (plan ex_ctx_used)\<rparr>)) ''N'')
     = Inr (Slice [ex_alloc ''a1'' ''web'' Running, ex_alloc ''a3'' ''db'' Pending])"
    by (simp add: ProposedAllocs_def Reset_def ex_ctx_used_def ex_state_def ex_plan_def
        ex_alloc_def recordPlacement_def FilterTerminalAllocs_def TerminalStatus_def
        index_map_def append_slice_def len_def Let_def)
  from Reset_only_metrics
    [where e = ex_ctx_used and h = ex_store_used and nodeID = "''N''"
       and existing = "Slice [ex_alloc ''a1'' ''web'' Running]"
       and a = "ex_alloc ''a3'' ''db'' Pending"
       and k = "''^web''" and v = 7 and k' = "''>= 1.0''" and w = 5]
    q g c m p
  show ?thesis
    by (simp add: new_AllocMetric_def)
qed

text \<open>
  C9: \<^verbatim>\<open>RegexpCache\<close> never returns a nil map; when the cache field was nil the map
  it returns is a new, empty one. On a context whose cache fields are nil or refer to
  map objects of the store, let the first call return the map \<open>r\<close>. After any run of
  steps (method calls of the context and writes through map references), with or
  without an entry stored, \<^verbatim>\<open>RegexpCache\<close> returns the same map \<open>r\<close> and changes
  neither the context nor the store. An entry stored through \<open>r\<close> at any moment is
  read through the map that a later call returns, after any run of steps that does not
  store under the same key again. The same holds for \<^verbatim>\<open>ConstraintCache\<close>.
\<close>

theorem cache_accessors_same_map:
  "fst (RegexpCache e h) \<noteq> None \<and>
   (reCache e = None \<longrightarrow>
      fst (RegexpCache e h) = Some (length (reMaps h)) \<and>
      re_get (fst (RegexpCache e h)) j (snd (snd (RegexpCache e h))) = None) \<and>
   (cache_ok e h \<and> RegexpCache e h = (r, e1, h1) \<and>
    do_calls cs (e1, re_put r k v h1) = (e2, h2) \<longrightarrow>
      RegexpCache e2 h2 = (r, e2, h2) \<and> re_get r k h2 = Some v) \<and>
   (cache_ok e h \<and> RegexpCache e h = (r, e1, h1) \<and> do_steps ss (e1, h1) = (em, hm) \<longrightarrow>
      RegexpCache em hm = (r, em, hm)) \<and>
   (cache_ok e h \<and> RegexpCache e h = (r, e1, h1) \<and> do_steps ss (e1, h1) = (em, hm) \<and>
    list_all (\<lambda>s. \<not> overwrites_re k s) ss' \<and>
    do_steps ss' (em, re_put r k v hm) = (en, hn) \<longrightarrow>
      RegexpCache en hn = (r, en, hn) \<and> re_get r k hn = Some v) \<and>
   fst (ConstraintCache e h) \<noteq> None \<and>
   (constraintCache e = None \<longrightarrow>
      fst (ConstraintCache e h) = Some (length (conMaps h)) \<and>
      con_get (fst (ConstraintCache e h)) j' (snd (snd (ConstraintCache e h))) = None) \<and>
   (cache_ok e h \<and> ConstraintCache e h = (c, e1', h1') \<and>
    do_calls cs' (e1', con_put c k' v' h1') = (e2', h2') \<longrightarrow>
      ConstraintCache e2' h2' = (c, e2', h2') \<and> con_get c k' h2' = Some v') \<and>
   (cache_ok e h \<and> ConstraintCache e h = (c, e1', h1') \<and> do_steps ts (e1', h1') = (em', hm') \<longrightarrow>
      ConstraintCache em' hm' = (c, em', hm')) \<and>
   (cache_ok e h \<and> ConstraintCache e h = (c, e1', h1') \<and> do_steps ts (e1', h1') = (em', hm') \<and>
    list_all (\<lambda>s. \<not> overwrites_con k' s) ts' \<and>
    do_steps ts' (em', con_put c k' v' hm') = (en', hn') \<longrightarrow>
      ConstraintCache en' hn' = (c, en', hn') \<and> con_get c k' hn' = Some v')"
proof (intro conjI impI)
  show "fst (RegexpCache e h) \<noteq> None"
    by (simp add: RegexpCache_def)
  show "fst (ConstraintCache e h) \<noteq> None"
    by (simp add: ConstraintCache_def)
next
  assume "reCache e = None"
  then show "fst (RegexpCache e h) = Some (length (reMaps h))"
    and "re_get (fst (RegexpCache e h)) j (snd (snd (RegexpCache e h))) = None"
    by (simp_all add: RegexpCache_def re_get_def)
next
  assume "constraintCache e = None"
  then show "fst (ConstraintCache e h) = Some (length (conMaps h))"
    and "con_get (fst (ConstraintCache e h)) j' (snd (snd (ConstraintCache e h))) = None"
    by (simp_all add: ConstraintCache_def con_get_def)
next
  assume p: "cache_ok e h \<and> RegexpCache e h = (r, e1, h1) \<and>
    do_calls cs (e1, re_put r k v h1) = (e2, h2)"
  then have ok: "cache_ok e h" and first: "RegexpCache e h = (r, e1, h1)"
    and run: "do_calls cs (e1, re_put r k v h1) = (e2, h2)"
    by simp_all
  from RegexpCache_result [OF ok first]
  obtain a where a: "r = Some a" "reCache e1 = Some a" "a < length (reMaps h1)"
    by blast
  have put: "a < length (reMaps (re_put r k v h1))" "(reMaps (re_put r k v h1) ! a) k = Some v"
    using a by (simp_all add: re_put_def)
  from do_calls_reCache [OF a(2) put run]
  have i: "reCache e2 = Some a" "a < length (reMaps h2)" "(reMaps h2 ! a) k = Some v"
    by simp_all
  show "RegexpCache e2 h2 = (r, e2, h2)"
    using i(1) a(1) by (simp add: RegexpCache_def)
  show "re_get r k h2 = Some v"
    using i(2,3) a(1) by (simp add: re_get_def)
next
  assume p: "cache_ok e h \<and> RegexpCache e h = (r, e1, h1) \<and> do_steps ss (e1, h1) = (em, hm)"
  then have ok: "cache_ok e h" and first: "RegexpCache e h = (r, e1, h1)"
    and run: "do_steps ss (e1, h1) = (em, hm)"
    by simp_all
  from RegexpCache_result [OF ok first]
  obtain a where a: "r = Some a" "reCache e1 = Some a" "a < length (reMaps h1)"
    by blast
  from do_steps_reCache_ref [OF a(2,3) run]
  have "reCache em = Some a"
    by simp
  then show "RegexpCache em hm = (r, em, hm)"
    using a(1) by (simp add: RegexpCache_def)
next
  assume p: "cache_ok e h \<and> RegexpCache e h = (r, e1, h1) \<and> do_steps ss (e1, h1) = (em, hm) \<and>
    list_all (\<lambda>s. \<not> overwrites_re k s) ss' \<and>
    do_steps ss' (em, re_put r k v hm) = (en, hn)"
  then have ok: "cache_ok e h" and first: "RegexpCache e h = (r, e1, h1)"
    and run: "do_steps ss (e1, h1) = (em, hm)"
    and keep: "list_all (\<lambda>s. \<not> overwrites_re k s) ss'"
    and run': "do_steps ss' (em, re_put r k v hm) = (en, hn)"
    by simp_all
  from RegexpCache_result [OF ok first]
  obtain a where a: "r = Some a" "reCache e1 = Some a" "a < length (reMaps h1)"
    by blast
  from do_steps_reCache_ref [OF a(2,3) run]
  have m: "reCache em = Some a" "a < length (reMaps hm)"
    by simp_all
  have put: "a < length (reMaps (re_put r k v hm))" "(reMaps (re_put r k v hm) ! a) k = Some v"
    using a(1) m(2) by (simp_all add: re_put_def)
  from do_steps_reCache_entry [OF m(1) put keep run']
  have i: "reCache en = Some a" "a < length (reMaps hn)" "(reMaps hn ! a) k = Some v"
    by simp_all
  show "RegexpCache en hn = (r, en, hn)"
    using i(1) a(1) by (simp add: RegexpCache_def)
  show "re_get r k hn = Some v"
    using i(2,3) a(1) by (simp add: re_get_def)
next
  assume p: "cache_ok e h \<and> ConstraintCache e h = (c, e1', h1') \<and>
    do_calls cs' (e1', con_put c k' v' h1') = (e2', h2')"
  then have ok: "cache_ok e h" and first: "ConstraintCache e h = (c, e1', h1')"
    and run: "do_calls cs' (e1', con_put c k' v' h1') = (e2', h2')"
    by simp_all
  from ConstraintCache_result [OF ok first]
  obtain b where b: "c = Some b" "constraintCache e1' = Some b" "b < length (conMaps h1')"
    by blast
  have put: "b < length (conMaps (con_put c k' v' h1'))"
    "(conMaps (con_put c k' v' h1') ! b) k' = Some v'"
    using b by (simp_all add: con_put_def)
  from do_calls_constraintCache [OF b(2) put run]
  have i: "constraintCache e2' = Some b" "b < length (conMaps h2')" "(conMaps h2' ! b) k' = Some v'"
    by simp_all
  show "ConstraintCache e2' h2' = (c, e2', h2')"
    using i(1) b(1) by (simp add: ConstraintCache_def)
  show "con_get c k' h2' = Some v'"
    using i(2,3) b(1) by (simp add: con_get_def)
next
  assume p: "cache_ok e h \<and> ConstraintCache e h = (c, e1', h1') \<and> do_steps ts (e1', h1') = (em', hm')"
  then have ok: "cache_ok e h" and first: "ConstraintCache e h = (c, e1', h1')"
    and run: "do_steps ts (e1', h1') = (em', hm')"
    by simp_all
  from ConstraintCache_result [OF ok first]
  obtain b where b: "c = Some b" "constraintCache e1' = Some b" "b < length (conMaps h1')"
    by blast
  from do_steps_constraintCache_ref [OF b(2,3) run]
  have "constraintCache em' = Some b"
    by simp
  then show "ConstraintCache em' hm' = (c, em', hm')"
    using b(1) by (simp add: ConstraintCache_def)
next
  assume p: "cache_ok e h \<and> ConstraintCache e h = (c, e1', h1') \<and> do_steps ts (e1', h1') = (em', hm') \<and>
    list_all (\<lambda>s. \<not> overwrites_con k' s) ts' \<and>
    do_steps ts' (em', con_put c k' v' hm') = (en', hn')"
  then have ok: "cache_ok e h" and first: "ConstraintCache e h = (c, e1', h1')"
    and run: "do_steps ts (e1', h1') = (em', hm')"
    and keep: "list_all (\<lambda>s. \<not> overwrites_con k' s) ts'"
    and run': "do_steps ts' (em', con_put c k' v' hm') = (en', hn')"
    by simp_all
  from ConstraintCache_result [OF ok first]
  obtain b where b: "c = Some b" "constraintCache e1' = Some b" "b < length (conMaps h1')"
    by blast
  from do_steps_constraintCache_ref [OF b(2,3) run]
  have m: "constraintCache em' = Some b" "b < length (conMaps hm')"
    by simp_all
  have put: "b < length (conMaps (con_put c k' v' hm'))"
    "(conMaps (con_put c k' v' hm') ! b) k' = Some v'"
    using b(1) m(2) by (simp_all add: con_put_def)
  from do_steps_constraintCache_entry [OF m(1) put keep run']
  have i: "constraintCache en' = Some b" "b < length (conMaps hn')" "(conMaps hn' ! b) k' = Some v'"
    by simp_all
  show "ConstraintCache en' hn' = (c, en', hn')"
    using i(1) b(1) by (simp add: ConstraintCache_def)
  show "con_get c k' hn' = Some v'"
    using i(2,3) b(1) by (simp add: con_get_def)
qed

theorem cache_accessors_same_map_witness:
  "cache_ok ex_ctx_new ex_store \<and>
   reCache ex_ctx_new = None \<and>
   fst (RegexpCache ex_ctx_new ex_store) = Some 0 \<and>
   RegexpCache (fst ex_run_re) (snd ex_run_re) = (Some 0, fst ex_run_re, snd ex_run_re) \<and>
   re_get (Some 0) ''^web'' (snd ex_run_re) = Some 7 \<and>
   RegexpCache (fst ex_mid_re) (snd ex_mid_re) = (Some 0, fst ex_mid_re, snd ex_mid_re) \<and>
   list_all (\<lambda>s. \<not> overwrites_re ''^web'' s) ex_steps_after \<and>
   RegexpCache (fst ex_end_re) (snd ex_end_re) = (Some 0, fst ex_end_re, snd ex_end_re) \<and>
   re_get (Some 0) ''^web'' (snd ex_end_re) = Some 7 \<and>
   constraintCache ex_ctx_new = None \<and>
   fst (ConstraintCache ex_ctx_new ex_store) = Some 0 \<and>
   ConstraintCache (fst ex_run_con) (snd ex_run_con) = (Some 0, fst ex_run_con, snd ex_run_con) \<and>
   con_get (Some 0) ''>= 1.0'' (snd ex_run_con) = Some 5 \<and>
   ConstraintCache (fst ex_mid_con) (snd ex_mid_con) = (Some 0, fst ex_mid_con, snd ex_mid_con) \<and>
   list_all (\<lambda>s. \<not> overwrites_con ''>= 1.0'' s) ex_steps_after \<and>
   ConstraintCache (fst ex_end_con) (snd ex_end_con) = (Some 0, fst ex_end_con, snd ex_end_con) \<and>
   con_get (Some 0) ''>= 1.0'' (snd ex_end_con) = Some 5"
proof -
  have ok: "cache_ok ex_ctx_new ex_store"
    by (simp add: cache_ok_def ex_ctx_new_def NewEvalContext_def)
  have n: "reCache ex_ctx_new = None" "constraintCache ex_ctx_new = None"
    by (simp_all add: ex_ctx_new_def NewEvalContext_def)
  have l: "length (reMaps ex_store) = 0" "length (conMaps ex_store) = 0"
    by (simp_all add: ex_store_def)
  have kr: "list_all (\<lambda>s. \<not> overwrites_re ''^web'' s) ex_steps_after"
    and kc: "list_all (\<lambda>s. \<not> overwrites_con ''>= 1.0'' s) ex_steps_after"
    by (simp_all add: ex_steps_after_def)
  have h2: "RegexpCache ex_ctx_new ex_store =
              (fst (RegexpCache ex_ctx_new ex_store), fst (snd (RegexpCache ex_ctx_new ex_store)),
               snd (snd (RegexpCache ex_ctx_new ex_store)))"
    by simp
  have h3: "do_calls [Call_Reset, Call_ProposedAllocs ''N'', Call_ConstraintCache, Call_RegexpCache]
              (fst (snd (RegexpCache ex_ctx_new ex_store)),
               re_put (fst (RegexpCache ex_ctx_new ex_store)) ''^web'' 7
                 (snd (snd (RegexpCache ex_ctx_new ex_store))))
            = (fst ex_run_re, snd ex_run_re)"
    by (simp only: ex_run_re_def prod.collapse)
  have m3: "do_steps ex_steps_before
              (fst (snd (RegexpCache ex_ctx_new ex_store)), snd (snd (RegexpCache ex_ctx_new ex_store)))
            = (fst ex_mid_re, snd ex_mid_re)"
    by (simp only: ex_mid_re_def prod.collapse)
  have n3: "do_steps ex_steps_after
              (fst ex_mid_re, re_put (fst (RegexpCache ex_ctx_new ex_store)) ''^web'' 7 (snd ex_mid_re))
            = (fst ex_end_re, snd ex_end_re)"
    by (simp only: ex_end_re_def prod.collapse)
  have h4: "ConstraintCache ex_ctx_new ex_store =
              (fst (ConstraintCache ex_ctx_new ex_store), fst (snd (ConstraintCache ex_ctx_new ex_store)),
               snd (snd (ConstraintCache ex_ctx_new ex_store)))"
    by simp
  have h5: "do_calls [Call_RegexpCache, Call_SetState ex_state_down, Call_ConstraintCache]
              (fst (snd (ConstraintCache ex_ctx_new ex_store)),
               con_put (fst (ConstraintCache ex_ctx_new ex_store)) ''>= 1.0'' 5
                 (snd (snd (ConstraintCache ex_ctx_new ex_store))))
            = (fst ex_run_con, snd ex_run_con)"
    by (simp only: ex_run_con_def prod.collapse)
  have m5: "do_steps ex_steps_before
              (fst (snd (ConstraintCache ex_ctx_new ex_store)),
               snd (snd (ConstraintCache ex_ctx_new ex_store)))
            = (fst ex_mid_con, snd ex_mid_con)"
    by (simp only: ex_mid_con_def prod.collapse)
  have n5: "do_steps ex_steps_after
              (fst ex_mid_con,
               con_put (fst (ConstraintCache ex_ctx_new ex_store)) ''>= 1.0'' 5 (snd ex_mid_con))
            = (fst ex_end_con, snd ex_end_con)"
    by (simp only: ex_end_con_def prod.collapse)
  note t = cache_accessors_same_map
    [where e = ex_ctx_new and h = ex_store
       and r = "fst (RegexpCache ex_ctx_new ex_store)"
       and ?e1.0 = "fst (snd (RegexpCache ex_ctx_new ex_store))"
       and ?h1.0 = "snd (snd (RegexpCache ex_ctx_new ex_store))"
       and cs = "[Call_Reset, Call_ProposedAllocs ''N'', Call_ConstraintCache, Call_RegexpCache]"
       and k = "''^web''" and v = 7
       and ?e2.0 = "fst ex_run_re" and ?h2.0 = "snd ex_run_re"
       and ss = ex_steps_before and em = "fst ex_mid_re" and hm = "snd ex_mid_re"
       and ss' = ex_steps_after and en = "fst ex_end_re" and hn = "snd ex_end_re"
       and c = "fst (ConstraintCache ex_ctx_new ex_store)"
       and e1' = "fst (snd (ConstraintCache ex_ctx_new ex_store))"
       and h1' = "snd (snd (ConstraintCache ex_ctx_new ex_store))"
       and cs' = "[Call_RegexpCache, Call_SetState ex_state_down, Call_ConstraintCache]"
       and k' = "''>= 1.0''" and v' = 5
       and e2' = "fst ex_run_con" and h2' = "snd ex_run_con"
       and ts = ex_steps_before and em' = "fst ex_mid_con" and hm' = "snd ex_mid_con"
       and ts' = ex_steps_after and en' = "fst ex_end_con" and hn' = "snd ex_end_con"]
  from t n l have r0: "fst (RegexpCache ex_ctx_new ex_store) = Some 0"
    and c0: "fst (ConstraintCache ex_ctx_new ex_store) = Some 0"
    by simp_all
  from t ok h2 h3
  have re: "RegexpCache (fst ex_run_re) (snd ex_run_re)
              = (fst (RegexpCache ex_ctx_new ex_store), fst ex_run_re, snd ex_run_re) \<and>
            re_get (fst (RegexpCache ex_ctx_new ex_store)) ''^web'' (snd ex_run_re) = Some 7"
    by blast
  from t ok h2 m3
  have re_mid: "RegexpCache (fst ex_mid_re) (snd ex_mid_re)
              = (fst (RegexpCache ex_ctx_new ex_store), fst ex_mid_re, snd ex_mid_re)"
    by blast
  from t ok h2 m3 kr n3
  have re_end: "RegexpCache (fst ex_end_re) (snd ex_end_re)
              = (fst (RegexpCache ex_ctx_new ex_store), fst ex_end_re, snd ex_end_re) \<and>
            re_get (fst (RegexpCache ex_ctx_new ex_store)) ''^web'' (snd ex_end_re) = Some 7"
    by blast
  from t ok h4 h5
  have con: "ConstraintCache (fst ex_run_con) (snd ex_run_con)
              = (fst (ConstraintCache ex_ctx_new ex_store), fst ex_run_con, snd ex_run_con) \<and>
            con_get (fst (ConstraintCache ex_ctx_new ex_store)) ''>= 1.0'' (snd ex_run_con) = Some 5"
    by blast
  from t ok h4 m5
  have con_mid: "ConstraintCache (fst ex_mid_con) (snd ex_mid_con)
              = (fst (ConstraintCache ex_ctx_new ex_store), fst ex_mid_con, snd ex_mid_con)"
    by blast
  from t ok h4 m5 kc n5
  have con_end: "ConstraintCache (fst ex_end_con) (snd ex_end_con)
              = (fst (ConstraintCache ex_ctx_new ex_store), fst ex_end_con, snd ex_end_con) \<and>
            con_get (fst (ConstraintCache ex_ctx_new ex_store)) ''>= 1.0'' (snd ex_end_con) = Some 5"
    by blast
  from ok n r0 c0 kr kc re re_mid re_end con con_mid con_end show ?thesis
    by simp
qed

text \<open>
  C10: \<^verbatim>\<open>ProposedAllocs\<close> leaves the context as it found it, on success and on error:
  the two maps of the plan, the metrics and the two cache fields are unchanged, and
  the call does not touch the store of the cache maps. A plan that holds an empty or
  nil entry for a node is projected as the plan that holds no entry for it.
\<close>

theorem ProposedAllocs_read_only:
  "snd (ProposedAllocs e nodeID) = e \<and>
   NodeUpdate (plan (snd (ProposedAllocs e nodeID))) = NodeUpdate (plan e) \<and>
   NodeAllocation (plan (snd (ProposedAllocs e nodeID))) = NodeAllocation (plan e) \<and>
   metrics (snd (ProposedAllocs e nodeID)) = metrics e \<and>
   reCache (snd (ProposedAllocs e nodeID)) = reCache e \<and>
   constraintCache (snd (ProposedAllocs e nodeID)) = constraintCache e \<and>
   do_call (Call_ProposedAllocs nodeID) (e, h) = (e, h) \<and>
   (len s1 = 0 \<and> len s2 = 0 \<longrightarrow>
      fst (ProposedAllocs
             (e\<lparr>plan := p\<lparr>NodeUpdate := (NodeUpdate p)(n \<mapsto> s1),
                           NodeAllocation := (NodeAllocation p)(n \<mapsto> s2)\<rparr>\<rparr>) m) =
      fst (ProposedAllocs
             (e\<lparr>plan := p\<lparr>NodeUpdate := (NodeUpdate p)(n := None),
                           NodeAllocation := (NodeAllocation p)(n := None)\<rparr>\<rparr>) m))"
proof (intro conjI impI)
  show "snd (ProposedAllocs e nodeID) = e"
    by (rule snd_ProposedAllocs)
  show "NodeUpdate (plan (snd (ProposedAllocs e nodeID))) = NodeUpdate (plan e)"
    by (simp only: snd_ProposedAllocs)
  show "NodeAllocation (plan (snd (ProposedAllocs e nodeID))) = NodeAllocation (plan e)"
    by (simp only: snd_ProposedAllocs)
  show "metrics (snd (ProposedAllocs e nodeID)) = metrics e"
    by (simp only: snd_ProposedAllocs)
  show "reCache (snd (ProposedAllocs e nodeID)) = reCache e"
    by (simp only: snd_ProposedAllocs)
  show "constraintCache (snd (ProposedAllocs e nodeID)) = constraintCache e"
    by (simp only: snd_ProposedAllocs)
  show "do_call (Call_ProposedAllocs nodeID) (e, h) = (e, h)"
    by (simp add: snd_ProposedAllocs)
next
  assume z: "len s1 = 0 \<and> len s2 = 0"
  show "fst (ProposedAllocs
             (e\<lparr>plan := p\<lparr>NodeUpdate := (NodeUpdate p)(n \<mapsto> s1),
                           NodeAllocation := (NodeAllocation p)(n \<mapsto> s2)\<rparr>\<rparr>) m) =
        fst (ProposedAllocs
             (e\<lparr>plan := p\<lparr>NodeUpdate := (NodeUpdate p)(n := None),
                           NodeAllocation := (NodeAllocation p)(n := None)\<rparr>\<rparr>) m)"
  proof (cases "m = n")
    case True
    with z show ?thesis
      by (simp add: ProposedAllocs_def Let_def index_map_def append_slice_def len_NilSlice
          split: sum.splits)
  next
    case False
    then show ?thesis
      by (simp add: ProposedAllocs_def Let_def index_map_def split: sum.splits)
  qed
qed

theorem ProposedAllocs_read_only_witness:
  "len (Slice [] :: Allocation slice) = 0 \<and> len (NilSlice :: Allocation slice) = 0 \<and>
   snd (ProposedAllocs ex_ctx_used ''N'') = ex_ctx_used \<and>
   snd (ProposedAllocs (NewEvalContext ex_state_down ex_plan 0) ''N'')
     = NewEvalContext ex_state_down ex_plan 0 \<and>
   fst (ProposedAllocs
          (ex_ctx_used\<lparr>plan := ex_plan\<lparr>NodeUpdate := (NodeUpdate ex_plan)(''N'' \<mapsto> Slice []),
                                         NodeAllocation := (NodeAllocation ex_plan)(''N'' \<mapsto> NilSlice)\<rparr>\<rparr>)
          ''N'')
     = Inr (Slice [ex_alloc ''a1'' ''web'' Running]) \<and>
   fst (ProposedAllocs
          (ex_ctx_used\<lparr>plan := ex_plan\<lparr>NodeUpdate := (NodeUpdate ex_plan)(''N'' := None),
                                         NodeAllocation := (NodeAllocation ex_plan)(''N'' := None)\<rparr>\<rparr>)
          ''N'')
     = Inr (Slice [ex_alloc ''a1'' ''web'' Running])"
proof -
  have z: "len (Slice [] :: Allocation slice) = 0" "len (NilSlice :: Allocation slice) = 0"
    by (simp_all add: len_def)
  have r: "fst (ProposedAllocs
          (ex_ctx_used\<lparr>plan := ex_plan\<lparr>NodeUpdate := (NodeUpdate ex_plan)(''N'' := None),
                                         NodeAllocation := (NodeAllocation ex_plan)(''N'' := None)\<rparr>\<rparr>)
          ''N'')
     = Inr (Slice [ex_alloc ''a1'' ''web'' Running])"
    by (simp add: ProposedAllocs_def ex_ctx_used_def ex_state_def ex_plan_def ex_alloc_def
        FilterTerminalAllocs_def TerminalStatus_def index_map_def append_slice_def len_def Let_def)
  from ProposedAllocs_read_only
    [where e = ex_ctx_used and nodeID = "''N''" and ?s1.0 = "Slice []" and ?s2.0 = NilSlice
       and p = ex_plan and n = "''N''" and m = "''N''"]
    ProposedAllocs_read_only
    [where e = "NewEvalContext ex_state_down ex_plan 0" and nodeID = "''N''"]
    z r
  show ?thesis
    by simp
qed

end
